theory Spec2Isabelle
  imports Main
begin

section \<open>Errors, panics and outcomes\<close>

text \<open>
  The error values of \<^verbatim>\<open>interface.go\<close> (\<^verbatim>\<open>ErrFullQueue\<close>, \<^verbatim>\<open>ErrEmptyQueue\<close>,
  \<^verbatim>\<open>ErrClosed\<close>, \<^verbatim>\<open>ErrUnsupported\<close>) and \<^verbatim>\<open>context.DeadlineExceeded\<close>, which the
  coordinator returns from a blocked pop.
\<close>

datatype error = ErrFullQueue | ErrEmptyQueue | ErrClosed | ErrUnsupported | DeadlineExceeded

text \<open>
  The run-time panics the code can raise: an index outside a slice, an integer
  remainder by zero, \<^verbatim>\<open>make\<close> with a negative length, and the explicit
  \<^verbatim>\<open>panic("unreachable")\<close> of the coordinator's pop.
\<close>

datatype panic = IndexOutOfRange | DivideByZero | MakesliceLenOutOfRange | Unreachable

text \<open>
  A method call either returns a value and leaves the receiver in a new state, or panics
  with the receiver as it was when the panic was raised.
\<close>

datatype ('v, 's) outcome = Returns 'v 's | Panics panic 's

text \<open>
  Go's \<^verbatim>\<open>%\<close> on \<^verbatim>\<open>int\<close> truncates towards zero: the result has the sign of the
  dividend. The divisor is checked for zero by the caller of this function.
\<close>

definition go_rem :: "int \<Rightarrow> int \<Rightarrow> int" where
  "go_rem a b = sgn a * (\<bar>a\<bar> mod \<bar>b\<bar>)"

section \<open>The core ring buffer (\<^verbatim>\<open>unsafeRQ\<close>)\<close>

text \<open>
  \<^verbatim>\<open>type WhenFull int\<close> and \<^verbatim>\<open>type WhenEmpty int\<close> with their \<^verbatim>\<open>iota\<close> constants.
  Any other integer is a value of the type as well, which is why the code has
  \<^verbatim>\<open>default\<close> branches.
\<close>

type_synonym WhenFull = int
type_synonym WhenEmpty = int

definition WhenFullError :: WhenFull where "WhenFullError = 0"
definition WhenFullOverwrite :: WhenFull where "WhenFullOverwrite = 1"
definition WhenEmptyError :: WhenEmpty where "WhenEmptyError = 0"
definition WhenEmptyBlock :: WhenEmpty where "WhenEmptyBlock = 1"

text \<open>
  \<^verbatim>\<open>OnCloseFunc[T]\<close> is user code called with the raw state. It is modelled as a
  transformer of the caller's world \<open>'w\<close> (whatever the callback can observe and change
  outside the queue) that returns normally.
\<close>

type_synonym ('a, 'w) OnCloseFunc = "'a list \<Rightarrow> int \<Rightarrow> int \<Rightarrow> bool \<Rightarrow> 'w \<Rightarrow> 'w"

text \<open>
  The struct \<^verbatim>\<open>unsafeRQ[T]\<close>. The field \<^verbatim>\<open>end\<close> is named \<open>end_idx\<close>; \<open>closeOnce\<close> is
  the done flag of the \<^verbatim>\<open>sync.Once\<close>; a nil slice and a nil callback are \<open>[]\<close> and
  \<open>None\<close>. The indices are Go \<^verbatim>\<open>int\<close>s, modelled as \<open>int\<close>: the code adds 1 only to an
  index it has just used to access the slice, so no sum leaves the 64-bit range.
\<close>

record ('a, 'w) unsafeRQ =
  data :: "'a list"
  isFull :: bool
  start :: int
  end_idx :: int
  whenFull :: WhenFull
  closeOnce :: bool
  closed :: bool
  onClose :: "('a, 'w) OnCloseFunc option"

text \<open>
  \<^verbatim>\<open>newUnsafe\<close>: \<^verbatim>\<open>make([]T, capacity)\<close> panics on a negative length and otherwise
  gives \<open>capacity\<close> copies of the zero value of \<open>T\<close>, which is passed as \<open>zero\<close>. The
  function always returns a nil error.
\<close>

definition newUnsafe ::
  "'a \<Rightarrow> int \<Rightarrow> WhenFull \<Rightarrow> ('a, 'w) OnCloseFunc option \<Rightarrow> panic + (error + ('a, 'w) unsafeRQ)" where
  "newUnsafe zero capacity wfull onCloseFunc =
     (if capacity < 0 then Inl MakesliceLenOutOfRange
      else Inr (Inr \<lparr> data = replicate (nat capacity) zero, isFull = False, start = 0,
                      end_idx = 0, whenFull = wfull, closeOnce = False, closed = False,
                      onClose = onCloseFunc \<rparr>))"

definition NewUnsafe ::
  "'a \<Rightarrow> int \<Rightarrow> WhenFull \<Rightarrow> WhenEmpty \<Rightarrow> ('a, 'w) OnCloseFunc option
     \<Rightarrow> panic + (error + ('a, 'w) unsafeRQ)" where
  "NewUnsafe zero capacity wfull wempty onCloseFunc =
     (if wempty \<noteq> WhenEmptyError then Inr (Inl ErrUnsupported)
      else newUnsafe zero capacity wfull onCloseFunc)"

text \<open>\<^verbatim>\<open>Len\<close>, \<^verbatim>\<open>Cap\<close> and \<^verbatim>\<open>IsFull\<close> read the state and change nothing.\<close>

definition Len :: "('a, 'w) unsafeRQ \<Rightarrow> int" where
  "Len r =
     (if closed r then 0
      else let res = end_idx r - start r in
           if res < 0 \<or> (res = 0 \<and> isFull r) then int (length (data r)) - res else res)"

definition Cap :: "('a, 'w) unsafeRQ \<Rightarrow> int" where
  "Cap r = (if closed r then 0 else int (length (data r)))"

definition IsFull :: "('a, 'w) unsafeRQ \<Rightarrow> bool" where
  "IsFull r = (if closed r then False else isFull r)"

text \<open>
  The three statements that end \<^verbatim>\<open>Push\<close>: the write \<^verbatim>\<open>r.data[r.end] = elem\<close> with
  its bounds check, the advance of \<^verbatim>\<open>end\<close> with the remainder's zero check, the new
  \<^verbatim>\<open>isFull\<close>, and the returned \<^verbatim>\<open>r.Len()\<close>.
\<close>

definition push_store :: "'a \<Rightarrow> ('a, 'w) unsafeRQ \<Rightarrow> (error + int, ('a, 'w) unsafeRQ) outcome" where
  "push_store elem r =
     (if \<not> (0 \<le> end_idx r \<and> end_idx r < int (length (data r))) then Panics IndexOutOfRange r
      else let r1 = r\<lparr>data := (data r)[nat (end_idx r) := elem]\<rparr> in
           if length (data r1) = 0 then Panics DivideByZero r1
           else let r2 = r1\<lparr>end_idx := go_rem (end_idx r1 + 1) (int (length (data r1)))\<rparr>;
                    r3 = r2\<lparr>isFull := (end_idx r2 = start r2)\<rparr>
                in Returns (Inr (Len r3)) r3)"

text \<open>
  \<^verbatim>\<open>Push\<close>. A returned \<^verbatim>\<open>(0, err)\<close> is \<open>Inl err\<close>, a returned \<^verbatim>\<open>(n, nil)\<close> is
  \<open>Inr n\<close>.
\<close>

definition Push :: "'a \<Rightarrow> ('a, 'w) unsafeRQ \<Rightarrow> (error + int, ('a, 'w) unsafeRQ) outcome" where
  "Push elem r =
     (if closed r then Returns (Inl ErrClosed) r
      else if isFull r then
             (if whenFull r = WhenFullError then Returns (Inl ErrFullQueue) r
              else if whenFull r = WhenFullOverwrite then push_store elem r
              else Returns (Inl ErrUnsupported) r)
      else push_store elem r)"

text \<open>
  \<^verbatim>\<open>Pop\<close> and \<^verbatim>\<open>Peek\<close>. A returned \<^verbatim>\<open>(zero, 0, err)\<close> is \<open>Inl err\<close>, a returned
  \<^verbatim>\<open>(elem, n, nil)\<close> is \<open>Inr (elem, n)\<close>.
\<close>

definition Pop :: "('a, 'w) unsafeRQ \<Rightarrow> (error + 'a \<times> int, ('a, 'w) unsafeRQ) outcome" where
  "Pop r =
     (if closed r then Returns (Inl ErrClosed) r
      else if \<not> isFull r \<and> start r = end_idx r then Returns (Inl ErrEmptyQueue) r
      else if \<not> (0 \<le> start r \<and> start r < int (length (data r))) then Panics IndexOutOfRange r
      else let res = data r ! nat (start r) in
           if length (data r) = 0 then Panics DivideByZero r
           else let r1 = r\<lparr>start := go_rem (start r + 1) (int (length (data r)))\<rparr>;
                    r2 = r1\<lparr>isFull := False\<rparr>
                in Returns (Inr (res, Len r2)) r2)"

definition Peek :: "('a, 'w) unsafeRQ \<Rightarrow> (error + 'a \<times> int, ('a, 'w) unsafeRQ) outcome" where
  "Peek r =
     (if closed r then Returns (Inl ErrClosed) r
      else if \<not> isFull r \<and> start r = end_idx r then Returns (Inl ErrEmptyQueue) r
      else if \<not> (0 \<le> start r \<and> start r < int (length (data r))) then Panics IndexOutOfRange r
      else Returns (Inr (data r ! nat (start r), Len r)) r)"

text \<open>The core buffer's \<^verbatim>\<open>SetPopDeadline\<close> ignores its argument.\<close>

definition SetPopDeadline :: "'t \<Rightarrow> ('a, 'w) unsafeRQ \<Rightarrow> error option \<times> ('a, 'w) unsafeRQ" where
  "SetPopDeadline t r = (Some ErrUnsupported, r)"

text \<open>
  \<^verbatim>\<open>Close\<close>: the body of \<^verbatim>\<open>closeOnce.Do\<close> runs only while the once has not fired. It
  returns the error (always nil, \<open>None\<close>), the receiver and the world the callback left.
\<close>

definition Close :: "('a, 'w) unsafeRQ \<Rightarrow> 'w \<Rightarrow> error option \<times> ('a, 'w) unsafeRQ \<times> 'w" where
  "Close r w =
     (if closeOnce r then (None, r, w)
      else let r1 = r\<lparr>closed := True\<rparr>;
               w1 = (case onClose r1 of
                       None \<Rightarrow> w
                     | Some f \<Rightarrow> f (data r1) (start r1) (end_idx r1) (isFull r1) w);
               r2 = r1\<lparr>data := []\<rparr>
           in (None, r2\<lparr>closeOnce := True\<rparr>, w1))"

section \<open>Running operations in sequence\<close>

text \<open>
  The loops of the tests (\<^verbatim>\<open>for ... { obj.Push(idx) }\<close>, \<^verbatim>\<open>for ... { obj.Pop() }\<close>):
  each call's result is kept in order; a panic ends the run.
\<close>

fun push_all ::
  "'a list \<Rightarrow> ('a, 'w) unsafeRQ \<Rightarrow> ((error + int) list, ('a, 'w) unsafeRQ) outcome" where
  "push_all [] r = Returns [] r"
| "push_all (x # xs) r =
     (case Push x r of
        Panics p r' \<Rightarrow> Panics p r'
      | Returns v r' \<Rightarrow>
          (case push_all xs r' of
             Panics p r'' \<Rightarrow> Panics p r''
           | Returns vs r'' \<Rightarrow> Returns (v # vs) r''))"

fun pop_n ::
  "nat \<Rightarrow> ('a, 'w) unsafeRQ \<Rightarrow> ((error + 'a \<times> int) list, ('a, 'w) unsafeRQ) outcome" where
  "pop_n 0 r = Returns [] r"
| "pop_n (Suc n) r =
     (case Pop r of
        Panics p r' \<Rightarrow> Panics p r'
      | Returns v r' \<Rightarrow>
          (case pop_n n r' of
             Panics p r'' \<Rightarrow> Panics p r''
           | Returns vs r'' \<Rightarrow> Returns (v # vs) r''))"

text \<open>
  Any sequence of push, pop and peek calls; the returned values are dropped, a panic
  ends the run.
\<close>

datatype 'a op = OpPush 'a | OpPop | OpPeek

fun apply_op :: "'a op \<Rightarrow> ('a, 'w) unsafeRQ \<Rightarrow> panic + ('a, 'w) unsafeRQ" where
  "apply_op (OpPush x) r = (case Push x r of Panics p r' \<Rightarrow> Inl p | Returns v r' \<Rightarrow> Inr r')"
| "apply_op OpPop r = (case Pop r of Panics p r' \<Rightarrow> Inl p | Returns v r' \<Rightarrow> Inr r')"
| "apply_op OpPeek r = (case Peek r of Panics p r' \<Rightarrow> Inl p | Returns v r' \<Rightarrow> Inr r')"

fun run :: "'a op list \<Rightarrow> ('a, 'w) unsafeRQ \<Rightarrow> panic + ('a, 'w) unsafeRQ" where
  "run [] r = Inr r"
| "run (x # xs) r = (case apply_op x r of Inl p \<Rightarrow> Inl p | Inr r' \<Rightarrow> run xs r')"

text \<open>The elements a list of pop results carries, errors left out.\<close>

fun popped :: "(error + 'a \<times> int) list \<Rightarrow> 'a list" where
  "popped [] = []"
| "popped (Inl e # vs) = popped vs"
| "popped (Inr (x, n) # vs) = x # popped vs"

section \<open>The logical content of a buffer\<close>

text \<open>
  The number of occupied slots and the occupied slots oldest first, read off the raw
  state: the reference that \<^verbatim>\<open>Len\<close> and the pops are compared with.
\<close>

definition occupied :: "('a, 'w) unsafeRQ \<Rightarrow> nat" where
  "occupied r =
     (if isFull r then length (data r)
      else nat ((end_idx r - start r) mod int (length (data r))))"

definition contents :: "('a, 'w) unsafeRQ \<Rightarrow> 'a list" where
  "contents r =
     map (\<lambda>i. data r ! ((nat (start r) + i) mod length (data r))) [0 ..< occupied r]"

text \<open>
  A live buffer whose indices lie in \<open>[0, capacity)\<close> and whose \<open>isFull\<close> flag is only
  set when \<open>start\<close> and \<open>end\<close> coincide.
\<close>

definition in_range :: "('a, 'w) unsafeRQ \<Rightarrow> bool" where
  "in_range r \<longleftrightarrow>
     0 \<le> start r \<and> start r < int (length (data r)) \<and>
     0 \<le> end_idx r \<and> end_idx r < int (length (data r))"

definition live :: "('a, 'w) unsafeRQ \<Rightarrow> bool" where
  "live r \<longleftrightarrow> \<not> closed r \<and> in_range r \<and> (if isFull r then start r = end_idx r else True)"

section \<open>The concurrent coordinator (\<^verbatim>\<open>safeRQ\<close>), one caller at a time\<close>

text \<open>
  Go's \<^verbatim>\<open>time.Time\<close> as nanoseconds from the zero time, so that \<^verbatim>\<open>t.IsZero()\<close> is
  \<open>t = 0\<close>.
\<close>

type_synonym time = int

text \<open>
  Modelled from the spec: the deadline of \<^verbatim>\<open>github.com/pion/transport/v3/deadline\<close>,
  which is not part of the repository. "A zero/absent time clears the deadline (wait
  indefinitely). A future time arms a one-shot timer; once it fires, all current and
  future blocked pops that observe it fail with DeadlineExceeded until a new deadline is
  set. Setting a new deadline replaces the previous one." The state is the armed time,
  if any; \<open>deadline_Done d now\<close> says that the channel \<^verbatim>\<open>Done()\<close> is ready at time
  \<open>now\<close>.
\<close>

definition deadline_New :: "time option" where
  "deadline_New = None"

definition deadline_Set :: "time \<Rightarrow> time option \<Rightarrow> time option" where
  "deadline_Set t d = (if t = 0 then None else Some t)"

definition deadline_Done :: "time option \<Rightarrow> time \<Rightarrow> bool" where
  "deadline_Done d now = (case d of None \<Rightarrow> False | Some t \<Rightarrow> t \<le> now)"

text \<open>
  The struct \<^verbatim>\<open>safeRQ[T]\<close> as one caller sees it between calls: the mutex is free, the
  channel \<^verbatim>\<open>closed\<close> is closed or not (\<open>closed_ch\<close>), its \<^verbatim>\<open>sync.Once\<close> has fired or
  not (\<open>closeOnce_ch\<close>), and the one-slot channel \<^verbatim>\<open>available\<close> holds a token or not.
\<close>

record ('a, 'w) safeRQ =
  rq :: "('a, 'w) unsafeRQ"
  closed_ch :: bool
  closeOnce_ch :: bool
  deadline :: "time option"
  whenEmpty :: WhenEmpty
  available :: bool

definition NewSafe ::
  "'a \<Rightarrow> int \<Rightarrow> WhenFull \<Rightarrow> WhenEmpty \<Rightarrow> ('a, 'w) OnCloseFunc option
     \<Rightarrow> panic + (error + ('a, 'w) safeRQ)" where
  "NewSafe zero capacity wfull wempty onCloseFunc =
     (case newUnsafe zero capacity wfull onCloseFunc of
        Inl p \<Rightarrow> Inl p
      | Inr (Inl err) \<Rightarrow> Inr (Inl err)
      | Inr (Inr r) \<Rightarrow>
          if wempty \<noteq> WhenEmptyError \<and> wempty \<noteq> WhenEmptyBlock then Inr (Inl ErrUnsupported)
          else Inr (Inr \<lparr> rq = r, closed_ch = False, closeOnce_ch = False,
                          deadline = deadline_New, whenEmpty = wempty, available = False \<rparr>))"

definition safe_SetPopDeadline ::
  "time \<Rightarrow> ('a, 'w) safeRQ \<Rightarrow> error option \<times> ('a, 'w) safeRQ" where
  "safe_SetPopDeadline t s =
     (if whenEmpty s \<noteq> WhenEmptyBlock then (Some ErrUnsupported, s)
      else (None, s\<lparr>deadline := deadline_Set t (deadline s)\<rparr>))"

definition safe_Close :: "('a, 'w) safeRQ \<Rightarrow> 'w \<Rightarrow> error option \<times> ('a, 'w) safeRQ \<times> 'w" where
  "safe_Close s w =
     (let s1 = (if closeOnce_ch s then s else s\<lparr>closed_ch := True, closeOnce_ch := True\<rparr>)
      in case Close (rq s1) w of (err, r', w') \<Rightarrow> (err, s1\<lparr>rq := r'\<rparr>, w'))"

definition safe_Len :: "('a, 'w) safeRQ \<Rightarrow> int" where
  "safe_Len s = Len (rq s)"

definition safe_Cap :: "('a, 'w) safeRQ \<Rightarrow> int" where
  "safe_Cap s = Cap (rq s)"

text \<open>A call delegated to the buffer under the lock: the buffer's new state is stored back.\<close>

definition guarded ::
  "(('a, 'w) unsafeRQ \<Rightarrow> ('v, ('a, 'w) unsafeRQ) outcome) \<Rightarrow> ('a, 'w) safeRQ
     \<Rightarrow> ('v, ('a, 'w) safeRQ) outcome" where
  "guarded f s =
     (case f (rq s) of
        Panics p r' \<Rightarrow> Panics p (s\<lparr>rq := r'\<rparr>)
      | Returns v r' \<Rightarrow> Returns v (s\<lparr>rq := r'\<rparr>))"

definition guardedPush :: "'a \<Rightarrow> ('a, 'w) safeRQ \<Rightarrow> (error + int, ('a, 'w) safeRQ) outcome" where
  "guardedPush element s = guarded (Push element) s"

definition guardedPop :: "('a, 'w) safeRQ \<Rightarrow> (error + 'a \<times> int, ('a, 'w) safeRQ) outcome" where
  "guardedPop s = guarded Pop s"

definition safe_Peek :: "('a, 'w) safeRQ \<Rightarrow> (error + 'a \<times> int, ('a, 'w) safeRQ) outcome" where
  "safe_Peek s = guarded Peek s"

text \<open>
  A \<^verbatim>\<open>select\<close> takes one of its ready cases, any of them. The caller of the model fixes
  the choice by a preference order \<open>pref\<close>: the first ready case in that order is taken
  (the first ready case in source order when \<open>pref\<close> lists none of them).
\<close>

datatype select_case = CaseClosed | CaseAvailable | CaseDeadline

definition pick :: "select_case list \<Rightarrow> select_case list \<Rightarrow> select_case option" where
  "pick pref ready =
     (case filter (\<lambda>c. c \<in> set ready) pref of
        c # cs \<Rightarrow> Some c
      | [] \<Rightarrow> (case ready of c # cs \<Rightarrow> Some c | [] \<Rightarrow> None))"

text \<open>
  The \<^verbatim>\<open>select\<close> of \<^verbatim>\<open>Push\<close>: receive from \<^verbatim>\<open>closed\<close>, send to \<^verbatim>\<open>available\<close> (ready
  when the slot is free), or \<^verbatim>\<open>default\<close> (\<open>None\<close>) when neither is ready.
\<close>

definition select_Push :: "select_case list \<Rightarrow> ('a, 'w) safeRQ \<Rightarrow> select_case option" where
  "select_Push pref s =
     pick pref ((if closed_ch s then [CaseClosed] else []) @
                (if \<not> available s then [CaseAvailable] else []))"

definition safe_Push ::
  "select_case list \<Rightarrow> 'a \<Rightarrow> ('a, 'w) safeRQ \<Rightarrow> (error + int, ('a, 'w) safeRQ) outcome" where
  "safe_Push pref element s =
     (case guardedPush element s of
        Panics p s' \<Rightarrow> Panics p s'
      | Returns v s' \<Rightarrow>
          if whenEmpty s' = WhenEmptyBlock then
            (case select_Push pref s' of
               Some CaseClosed \<Rightarrow> Returns (Inl ErrClosed) s'
             | Some CaseAvailable \<Rightarrow> Returns v (s'\<lparr>available := True\<rparr>)
             | _ \<Rightarrow> Returns v s')
          else Returns v s')"

text \<open>
  The \<^verbatim>\<open>select\<close> of \<^verbatim>\<open>Pop\<close> at time \<open>now\<close>, with no other caller: it has no
  \<^verbatim>\<open>default\<close>, so with no case ready it waits; an armed deadline then fires, and
  without one the call never returns (\<open>None\<close>).
\<close>

definition select_Pop :: "select_case list \<Rightarrow> time \<Rightarrow> ('a, 'w) safeRQ \<Rightarrow> select_case option" where
  "select_Pop pref now s =
     (case pick pref ((if closed_ch s then [CaseClosed] else []) @
                      (if available s then [CaseAvailable] else []) @
                      (if deadline_Done (deadline s) now then [CaseDeadline] else [])) of
        Some c \<Rightarrow> Some c
      | None \<Rightarrow> (if deadline s \<noteq> None then Some CaseDeadline else None))"

text \<open>
  \<^verbatim>\<open>safeRQ.Pop\<close>: every error of the guarded pop takes the path commented
  \<^verbatim>\<open>// we have an empty queue\<close>. Receiving from \<^verbatim>\<open>available\<close> takes the token and calls
  \<^verbatim>\<open>Pop\<close> again. \<open>None\<close> is a call that never returns.
\<close>

function safe_Pop ::
  "select_case list \<Rightarrow> time \<Rightarrow> ('a, 'w) safeRQ
     \<Rightarrow> (error + 'a \<times> int, ('a, 'w) safeRQ) outcome option" where
  "safe_Pop pref now s =
     (case guardedPop s of
        Panics p s' \<Rightarrow> Some (Panics p s')
      | Returns (Inr v) s' \<Rightarrow> Some (Returns (Inr v) s')
      | Returns (Inl err) s' \<Rightarrow>
          if whenEmpty s' = WhenEmptyError then Some (Returns (Inl ErrEmptyQueue) s')
          else if whenEmpty s' = WhenEmptyBlock then
            (if select_Pop pref now s' = Some CaseClosed then Some (Returns (Inl ErrClosed) s')
             else if select_Pop pref now s' = Some CaseAvailable
               then safe_Pop pref now (s'\<lparr>available := False\<rparr>)
             else if select_Pop pref now s' = Some CaseDeadline
               then Some (Returns (Inl DeadlineExceeded) s')
             else None)
          else Some (Panics Unreachable s'))"
  by pat_completeness auto
termination
proof (relation "measure (\<lambda>(pref, now, s). if available s then 1 else 0)")
  fix pref :: "select_case list" and now :: time and s :: "('a, 'w) safeRQ"
    and v :: "error + 'a \<times> int" and s' :: "('a, 'w) safeRQ" and err :: error
  assume g: "guardedPop s = Returns v s'" and sel: "select_Pop pref now s' = Some CaseAvailable"
  have mem: "c \<in> set ready" if p: "pick pref ready = Some c" for ready c
  proof (cases "filter (\<lambda>c. c \<in> set ready) pref")
    case Nil
    with p show ?thesis by (auto simp: pick_def split: list.splits)
  next
    case (Cons d ds)
    then have "d \<in> set (filter (\<lambda>c. c \<in> set ready) pref)" by simp
    then have "d \<in> set ready" by simp
    moreover from p Cons have "c = d" by (simp add: pick_def)
    ultimately show ?thesis by simp
  qed
  from sel have "available s'"
    by (auto simp: select_Pop_def split: option.splits if_splits dest!: mem)
  moreover from g have "available s' = available s"
    by (auto simp: guardedPop_def guarded_def split: outcome.splits)
  ultimately show "((pref, now, s'\<lparr>available := False\<rparr>), pref, now, s)
      \<in> measure (\<lambda>(pref, now, s). if available s then 1 else 0)"
    by simp
qed simp

text \<open>A queue of capacity 3 over \<open>int\<close> with the Error policy and no callback.\<close>

definition q3 :: "(int, unit) unsafeRQ" where
  "q3 = \<lparr> data = [0, 0, 0], isFull = False, start = 0, end_idx = 0,
          whenFull = WhenFullError, closeOnce = False, closed = False, onClose = None \<rparr>"

text \<open>The value a call returned, if it returned.\<close>

fun returned :: "('v, 's) outcome \<Rightarrow> 'v option" where
  "returned (Returns v s) = Some v"
| "returned (Panics p s) = None"


definition q3_full :: "(int, unit) unsafeRQ" where
  "q3_full = q3\<lparr>data := [10, 20, 30], isFull := True\<rparr>"

definition q0 :: "(int, unit) unsafeRQ" where
  "q0 = \<lparr> data = [], isFull = False, start = 0, end_idx = 0,
          whenFull = WhenFullError, closeOnce = False, closed = False, onClose = None \<rparr>"

definition s3 :: "(int, unit) safeRQ" where
  "s3 = \<lparr> rq = q3, closed_ch = False, closeOnce_ch = False, deadline = None,
          whenEmpty = WhenEmptyError, available = False \<rparr>"



text \<open>
  The coordinator \<open>s3\<close> after \<^verbatim>\<open>Close\<close>, the same coordinator with the Block policy, and a
  new queue of capacity 2 with the Overwrite policy.
\<close>

definition s3_closed :: "(int, unit) safeRQ" where
  "s3_closed = s3\<lparr>rq := q3\<lparr>data := [], closeOnce := True, closed := True\<rparr>,
                   closed_ch := True, closeOnce_ch := True\<rparr>"

definition s3_block :: "(int, unit) safeRQ" where
  "s3_block = s3\<lparr>whenEmpty := WhenEmptyBlock\<rparr>"

definition q2_over :: "(int, unit) unsafeRQ" where
  "q2_over = \<lparr> data = [0, 0], isFull = False, start = 0, end_idx = 0,
          whenFull = WhenFullOverwrite, closeOnce = False, closed = False, onClose = None \<rparr>"


text \<open>A new queue of capacity 10 with the Error policy, as \<^verbatim>\<open>TestPushPop\<close> builds it.\<close>

definition q10 :: "(int, unit) unsafeRQ" where
  "q10 = \<lparr> data = [0, 0, 0, 0, 0, 0, 0, 0, 0, 0], isFull = False, start = 0, end_idx = 0,
          whenFull = WhenFullError, closeOnce = False, closed = False, onClose = None \<rparr>"

text \<open>An empty queue of capacity 3 whose indices stand at the last slot.\<close>

definition q3_wrap :: "(int, unit) unsafeRQ" where
  "q3_wrap = q3\<lparr>start := 2, end_idx := 2\<rparr>"

section \<open>Basic facts\<close>

lemma go_rem_nonneg: "0 \<le> a \<Longrightarrow> 0 < b \<Longrightarrow> go_rem a b = a mod b"
  by (cases "a = 0") (simp_all add: go_rem_def)

lemma newUnsafe_q3: "newUnsafe 0 3 WhenFullError None = Inr (Inr q3)"
  by (simp add: newUnsafe_def q3_def numeral_3_eq_3)

section \<open>The reported length\<close>

lemmas rq_defs =
  Push_def push_store_def Pop_def Peek_def Len_def Cap_def IsFull_def go_rem_def
  WhenFullError_def WhenFullOverwrite_def

text \<open>
  C1 (the code departs from the claim). The claim: on every reachable live buffer
  \<^verbatim>\<open>Len\<close> is \<open>(end - start) mod capacity\<close>, or the capacity when the buffer is full,
  and never exceeds the capacity. The code: with \<^verbatim>\<open>end < start\<close> the branch
  \<^verbatim>\<open>res = len(r.data) - res\<close> subtracts the negative difference. A new buffer of
  capacity 3 takes three pushes and one pop; two slots are then occupied, and both the
  pop and \<^verbatim>\<open>Len\<close> report 4, with \<^verbatim>\<open>Cap\<close> 3.
\<close>

theorem Len_exceeds_capacity_after_wrap:
  "newUnsafe 0 3 WhenFullError None = Inr (Inr q3) \<and>
   push_all [10, 20, 30] q3 =
     Returns [Inr 1, Inr 2, Inr 3] (q3\<lparr>data := [10, 20, 30], isFull := True\<rparr>) \<and>
   Pop (q3\<lparr>data := [10, 20, 30], isFull := True\<rparr>) =
     Returns (Inr (10, 4)) (q3\<lparr>data := [10, 20, 30], start := 1\<rparr>) \<and>
   Len (q3\<lparr>data := [10, 20, 30], start := 1\<rparr>) = 4 \<and>
   Cap (q3\<lparr>data := [10, 20, 30], start := 1\<rparr>) = 3 \<and>
   occupied (q3\<lparr>data := [10, 20, 30], start := 1\<rparr>) = 2"
  using newUnsafe_q3 by (simp add: q3_def rq_defs occupied_def)

section \<open>A full buffer under the Error policy\<close>

text \<open>
  C5. Under the Error full-policy a push on a full buffer (one whose \<^verbatim>\<open>IsFull()\<close>
  reports true; a closed buffer reports false) returns \<^verbatim>\<open>ErrFullQueue\<close> and leaves the
  whole state as it was: backing store, \<open>start\<close>, \<open>end\<close> and \<open>isFull\<close> are those of
  before the call, so the rejected element is not stored.
\<close>

theorem Push_full_rejected_unchanged:
  assumes "IsFull r" and "whenFull r = WhenFullError"
  shows "Push x r = Returns (Inl ErrFullQueue) r"
  using assms by (simp add: Push_def IsFull_def split: if_splits)

theorem Push_full_rejected_unchanged_witness:
  "IsFull q3_full \<and> whenFull q3_full = WhenFullError \<and>
   Push 40 q3_full = Returns (Inl ErrFullQueue) q3_full \<and> data q3_full = [10, 20, 30]"
proof -
  have h1: "IsFull q3_full" by (simp add: q3_full_def q3_def IsFull_def)
  have h2: "whenFull q3_full = WhenFullError" by (simp add: q3_full_def q3_def)
  have "data q3_full = [10, 20, 30]" by (simp add: q3_full_def)
  with h1 h2 Push_full_rejected_unchanged [OF h1 h2, of 40] show ?thesis by simp
qed

section \<open>Pop and peek\<close>




section \<open>Close\<close>








section \<open>The pop deadline\<close>

text \<open>
  C9. On the coordinator \<^verbatim>\<open>SetPopDeadline\<close> returns \<^verbatim>\<open>ErrUnsupported\<close> exactly when the
  empty-policy is not \<^verbatim>\<open>WhenEmptyBlock\<close>, and then leaves the coordinator as it was; with
  \<^verbatim>\<open>WhenEmptyBlock\<close> it returns nil. On the core buffer, which \<^verbatim>\<open>NewUnsafe\<close> only
  builds for \<^verbatim>\<open>WhenEmptyError\<close>, it always returns \<^verbatim>\<open>ErrUnsupported\<close> and changes
  nothing. \<^verbatim>\<open>NewSafe\<close> keeps the policy it is given, which is one of the two.
\<close>

theorem SetPopDeadline_unsupported_iff_not_block:
  "(fst (safe_SetPopDeadline t s) = Some ErrUnsupported \<longleftrightarrow> whenEmpty s \<noteq> WhenEmptyBlock) \<and>
   (whenEmpty s \<noteq> WhenEmptyBlock \<longrightarrow> safe_SetPopDeadline t s = (Some ErrUnsupported, s)) \<and>
   (whenEmpty s = WhenEmptyBlock \<longrightarrow> fst (safe_SetPopDeadline t s) = None) \<and>
   SetPopDeadline t r = (Some ErrUnsupported, r) \<and>
   (NewUnsafe zero c wfull wempty f = Inr (Inr r0) \<longrightarrow> wempty = WhenEmptyError) \<and>
   (NewSafe zero c wfull wempty f = Inr (Inr s0) \<longrightarrow>
      whenEmpty s0 = wempty \<and> (wempty = WhenEmptyError \<or> wempty = WhenEmptyBlock))"
proof -
  have "wempty = WhenEmptyError" if "NewUnsafe zero c wfull wempty f = Inr (Inr r0)"
    using that by (simp add: NewUnsafe_def split: if_splits)
  moreover have "whenEmpty s0 = wempty \<and> (wempty = WhenEmptyError \<or> wempty = WhenEmptyBlock)"
    if "NewSafe zero c wfull wempty f = Inr (Inr s0)"
    using that by (auto simp: NewSafe_def newUnsafe_def split: if_splits)
  ultimately show ?thesis
    by (simp add: safe_SetPopDeadline_def SetPopDeadline_def)
qed

theorem SetPopDeadline_unsupported_iff_not_block_witness:
  "whenEmpty s3 \<noteq> WhenEmptyBlock \<and> safe_SetPopDeadline 5 s3 = (Some ErrUnsupported, s3) \<and>
   whenEmpty s3_block = WhenEmptyBlock \<and> fst (safe_SetPopDeadline 5 s3_block) = None \<and>
   NewUnsafe 0 3 WhenFullError WhenEmptyError None = Inr (Inr q3) \<and>
   NewSafe 0 3 WhenFullError WhenEmptyError None = Inr (Inr s3) \<and>
   whenEmpty s3 = WhenEmptyError \<and>
   SetPopDeadline (5 :: time) q3 = (Some ErrUnsupported, q3)"
proof -
  have a: "whenEmpty s3 \<noteq> WhenEmptyBlock"
    and b: "whenEmpty s3_block = WhenEmptyBlock"
    by (simp_all add: s3_def s3_block_def WhenEmptyError_def WhenEmptyBlock_def)
  have c: "NewUnsafe 0 3 WhenFullError WhenEmptyError None = Inr (Inr q3)"
    by (simp add: NewUnsafe_def newUnsafe_q3)
  have d: "NewSafe 0 3 WhenFullError WhenEmptyError None = Inr (Inr s3)"
    by (simp add: NewSafe_def newUnsafe_q3 s3_def deadline_New_def WhenEmptyError_def)
  from SetPopDeadline_unsupported_iff_not_block
         [of 5 s3 q3 0 3 WhenFullError WhenEmptyError None q3 s3] a c d
  have "safe_SetPopDeadline 5 s3 = (Some ErrUnsupported, s3)"
    and "whenEmpty s3 = WhenEmptyError"
    and "SetPopDeadline (5 :: time) q3 = (Some ErrUnsupported, q3)"
    by blast+
  moreover from SetPopDeadline_unsupported_iff_not_block
         [of 5 s3_block q3 0 3 WhenFullError WhenEmptyError None q3 s3] b
  have "fst (safe_SetPopDeadline 5 s3_block) = None"
    by blast
  ultimately show ?thesis
    using a b c d by simp
qed

section \<open>Capacity 0\<close>

text \<open>
  C10 as stated fails: a new buffer of capacity 0 is built, and a push on it panics, but
  with an index out of range at the write \<^verbatim>\<open>r.data[r.end] = elem\<close>, which comes before
  the remainder, not with a division by zero.
\<close>

theorem capacity_zero_Push_panic_is_not_modulo:
  "newUnsafe 0 0 WhenFullError None = Inr (Inr q0) \<and>
   Push 1 q0 = Panics IndexOutOfRange q0 \<and>
   Push 1 q0 \<noteq> Panics DivideByZero q0"
  by (simp add: newUnsafe_def q0_def Push_def push_store_def)

lemma push_store_never_DivideByZero: "push_store x r \<noteq> Panics DivideByZero r'"
proof (cases "0 \<le> end_idx r \<and> end_idx r < int (length (data r))")
  case True
  then have "length (data r) \<noteq> 0" by auto
  with True show ?thesis by (simp add: push_store_def Let_def)
next
  case False
  then show ?thesis by (simp add: push_store_def)
qed

lemma Push_never_DivideByZero: "Push x r \<noteq> Panics DivideByZero r'"
  using push_store_never_DivideByZero [of x r r'] by (simp add: Push_def)

text \<open>
  C10 as amended. Construction with capacity 0 returns a buffer, through \<^verbatim>\<open>newUnsafe\<close>,
  \<^verbatim>\<open>NewUnsafe\<close> and \<^verbatim>\<open>NewSafe\<close> alike. On that buffer every push, the first and each
  later one, directly or through the coordinator, panics with an index out of range at
  the write \<^verbatim>\<open>r.data[r.end] = elem\<close> and leaves the state as it was; no error is
  returned. No push in any state panics with a division by zero: the remainder is only
  reached after a write that succeeded, and then the capacity is not 0.
\<close>

theorem capacity_zero_Push_index_panic:
  "(\<exists>r0 s0.
      newUnsafe zero 0 wfull f = Inr (Inr r0) \<and>
      NewUnsafe zero 0 wfull WhenEmptyError f = Inr (Inr r0) \<and>
      NewSafe zero 0 wfull WhenEmptyError f = Inr (Inr s0) \<and>
      rq s0 = r0 \<and> Cap r0 = 0 \<and>
      (\<forall>x. Push x r0 = Panics IndexOutOfRange r0) \<and>
      (\<forall>x xs. push_all (x # xs) r0 = Panics IndexOutOfRange r0) \<and>
      (\<forall>pref x. safe_Push pref x s0 = Panics IndexOutOfRange s0)) \<and>
   (\<forall>x r r'. Push x r \<noteq> Panics DivideByZero r')"
proof -
  have "\<exists>r0 s0.
      newUnsafe zero 0 wfull f = Inr (Inr r0) \<and>
      NewUnsafe zero 0 wfull WhenEmptyError f = Inr (Inr r0) \<and>
      NewSafe zero 0 wfull WhenEmptyError f = Inr (Inr s0) \<and>
      rq s0 = r0 \<and> Cap r0 = 0 \<and>
      (\<forall>x. Push x r0 = Panics IndexOutOfRange r0) \<and>
      (\<forall>x xs. push_all (x # xs) r0 = Panics IndexOutOfRange r0) \<and>
      (\<forall>pref x. safe_Push pref x s0 = Panics IndexOutOfRange s0)"
    by (simp add: newUnsafe_def NewUnsafe_def NewSafe_def Cap_def Push_def push_store_def
        safe_Push_def guardedPush_def guarded_def WhenEmptyError_def)
  then show ?thesis
    by (simp add: Push_never_DivideByZero)
qed

section \<open>The coordinator after Close\<close>

text \<open>
  What does hold once the buffer is closed: the buffer's own calls return \<^verbatim>\<open>ErrClosed\<close>,
  \<^verbatim>\<open>Len\<close> and \<^verbatim>\<open>Cap\<close> are 0, and the coordinator's push and peek hand the buffer's
  \<^verbatim>\<open>ErrClosed\<close> on.
\<close>

lemma closed_buffer_operations:
  assumes "closed r"
  shows "Push x r = Returns (Inl ErrClosed) r" and "Pop r = Returns (Inl ErrClosed) r"
    and "Peek r = Returns (Inl ErrClosed) r" and "Len r = 0" and "Cap r = 0"
  using assms by (simp_all add: Push_def Pop_def Peek_def Len_def Cap_def)

lemma Close_closes: "\<not> closeOnce r \<or> closed r \<Longrightarrow> closed (fst (snd (Close r w)))"
  by (auto simp: Close_def Let_def)

lemma closed_coordinator_Push_Peek:
  assumes "closed (rq s)"
  shows "safe_Peek s = Returns (Inl ErrClosed) s"
    and "returned (safe_Push pref x s) = Some (Inl ErrClosed)"
    and "safe_Len s = 0" and "safe_Cap s = 0"
  using assms
  by (simp_all add: safe_Peek_def safe_Push_def guardedPush_def guarded_def safe_Len_def
      safe_Cap_def closed_buffer_operations split: option.splits select_case.splits)


text \<open>
  C4 (the code departs from the claim). The claim: after \<^verbatim>\<open>Close\<close> every pop through the
  coordinator fails with \<^verbatim>\<open>ErrClosed\<close> under every empty-policy. The code: a coordinator
  built with \<^verbatim>\<open>WhenEmptyError\<close> and then closed gets \<^verbatim>\<open>ErrClosed\<close> from the buffer's
  \<^verbatim>\<open>Pop\<close> and returns \<^verbatim>\<open>ErrEmptyQueue\<close> in its place, whatever the \<^verbatim>\<open>select\<close>
  preference and the time.
\<close>

theorem closed_coordinator_Pop_reports_empty:
  "NewSafe 0 3 WhenFullError WhenEmptyError None = Inr (Inr s3) \<and>
   safe_Close s3 () = (None, s3_closed, ()) \<and>
   returned (Pop (rq s3_closed)) = Some (Inl ErrClosed) \<and>
   safe_Pop pref now s3_closed = Some (Returns (Inl ErrEmptyQueue) s3_closed)"
  by (simp add: NewSafe_def newUnsafe_q3 s3_def s3_closed_def q3_def deadline_New_def
      safe_Close_def Close_def Pop_def guardedPop_def guarded_def WhenEmptyError_def)

section \<open>The Overwrite policy\<close>

text \<open>
  C2 (the code departs from the claim). The claim: with the Overwrite policy, capacity
  \<open>C\<close> and \<open>C + K\<close> pushes, draining yields the last \<open>C\<close> elements pushed. The code: the
  overwriting push writes at \<open>end\<close> and advances \<open>end\<close> but leaves \<open>start\<close> where it
  was, so the buffer then holds one element. With capacity 2 and pushes of 1, 2, 3 the
  third push reports length 1, the first pop returns 3 and the second finds the buffer
  empty; the claim gives 2, 3.
\<close>

theorem Overwrite_keeps_only_newest:
  "newUnsafe 0 2 WhenFullOverwrite None = Inr (Inr q2_over) \<and>
   push_all [1, 2, 3] q2_over =
     Returns [Inr 1, Inr 2, Inr 1] (q2_over\<lparr>data := [3, 2], end_idx := 1\<rparr>) \<and>
   pop_n 2 (q2_over\<lparr>data := [3, 2], end_idx := 1\<rparr>) =
     Returns [Inr (3, 0), Inl ErrEmptyQueue] (q2_over\<lparr>data := [3, 2], start := 1, end_idx := 1\<rparr>)"
  by (simp add: newUnsafe_def q2_over_def rq_defs numeral_2_eq_2)

section \<open>The indices stay in range\<close>

lemma Push_in_range:
  assumes "in_range r"
  shows "\<exists>v r'. Push x r = Returns v r' \<and> in_range r' \<and> length (data r') = length (data r) \<and>
           closed r' = closed r \<and> whenFull r' = whenFull r"
proof -
  from assms have n: "0 < int (length (data r))" and e: "0 \<le> end_idx r" "end_idx r < int (length (data r))"
    by (auto simp: in_range_def)
  have m: "go_rem (end_idx r + 1) (int (length (data r))) = (end_idx r + 1) mod int (length (data r))"
    using e n by (intro go_rem_nonneg) auto
  have b: "0 \<le> (end_idx r + 1) mod int (length (data r))" "(end_idx r + 1) mod int (length (data r)) < int (length (data r))"
    using n by auto
  show ?thesis
    using assms b n by (auto simp: Push_def push_store_def Let_def in_range_def m)
qed

lemma Pop_in_range:
  assumes "in_range r"
  shows "\<exists>v r'. Pop r = Returns v r' \<and> in_range r' \<and> length (data r') = length (data r) \<and>
           closed r' = closed r \<and> whenFull r' = whenFull r"
proof -
  from assms have n: "0 < int (length (data r))" and e: "0 \<le> start r" "start r < int (length (data r))"
    by (auto simp: in_range_def)
  have m: "go_rem (start r + 1) (int (length (data r))) = (start r + 1) mod int (length (data r))"
    using e n by (intro go_rem_nonneg) auto
  have b: "0 \<le> (start r + 1) mod int (length (data r))" "(start r + 1) mod int (length (data r)) < int (length (data r))"
    using n by auto
  show ?thesis
    using assms b n by (auto simp: Pop_def Let_def in_range_def m)
qed

lemma Peek_in_range:
  assumes "in_range r"
  shows "\<exists>v. Peek r = Returns v r"
  using assms by (auto simp: Peek_def in_range_def)

lemma run_in_range:
  "in_range r \<Longrightarrow> \<exists>r'. run ops r = Inr r' \<and> in_range r' \<and> length (data r') = length (data r) \<and>
           closed r' = closed r \<and> whenFull r' = whenFull r"
proof (induction ops arbitrary: r)
  case Nil
  then show ?case by simp
next
  case (Cons a ops)
  show ?case
  proof (cases a)
    case (OpPush x)
    from Push_in_range [OF Cons.prems, of x] obtain v r1 where
      p: "Push x r = Returns v r1" "in_range r1" "length (data r1) = length (data r)"
         "closed r1 = closed r" "whenFull r1 = whenFull r" by blast
    from Cons.IH [OF p(2)] p OpPush show ?thesis by auto
  next
    case OpPop
    from Pop_in_range [OF Cons.prems] obtain v r1 where
      p: "Pop r = Returns v r1" "in_range r1" "length (data r1) = length (data r)"
         "closed r1 = closed r" "whenFull r1 = whenFull r" by blast
    from Cons.IH [OF p(2)] p OpPop show ?thesis by auto
  next
    case OpPeek
    from Peek_in_range [OF Cons.prems] obtain v where p: "Peek r = Returns v r" by blast
    from Cons.IH [OF Cons.prems] p OpPeek show ?thesis by auto
  qed
qed

lemma Push_isFull: "Push x r = Returns (Inr n) r' \<Longrightarrow> isFull r' = (end_idx r' = start r')"
  by (auto simp: Push_def push_store_def Let_def split: if_splits)

lemma Pop_isFull: "Pop r = Returns (Inr v) r' \<Longrightarrow> \<not> isFull r'"
  by (auto simp: Pop_def Let_def split: if_splits)

text \<open>
  C8. A buffer built with capacity \<open>c \<ge> 1\<close> goes through any sequence of push, pop and
  peek calls without a panic, and in the state \<open>r\<close> it reaches \<open>start\<close> and \<open>end\<close> lie
  in \<open>[0, c)\<close> (every state on the way is the state reached by a prefix). In that state,
  a push that succeeds leaves \<open>isFull\<close> equal to \<open>end = start\<close>, and a pop that succeeds
  leaves \<open>isFull\<close> false.
\<close>

theorem indices_stay_in_range:
  assumes "1 \<le> c" and "newUnsafe zero c wfull f = Inr (Inr r0)"
  shows "\<exists>r. run ops r0 = Inr r \<and> Cap r = c \<and>
           0 \<le> start r \<and> start r < c \<and> 0 \<le> end_idx r \<and> end_idx r < c \<and>
           (\<forall>x n r'. Push x r = Returns (Inr n) r' \<longrightarrow> isFull r' = (end_idx r' = start r')) \<and>
           (\<forall>v r'. Pop r = Returns (Inr v) r' \<longrightarrow> \<not> isFull r')"
proof -
  from assms have r0: "in_range r0" "int (length (data r0)) = c" "\<not> closed r0"
    by (auto simp: newUnsafe_def in_range_def split: if_splits)
  from run_in_range [OF r0(1), of ops] obtain r where
    r: "run ops r0 = Inr r" "in_range r" "length (data r) = length (data r0)" "closed r = closed r0"
    by blast
  with r0 have "Cap r = c" "0 \<le> start r" "start r < c" "0 \<le> end_idx r" "end_idx r < c"
    by (auto simp: Cap_def in_range_def)
  with r(1) show ?thesis
    using Push_isFull [of _ r] Pop_isFull [of r] by blast
qed

theorem indices_stay_in_range_witness:
  "(1 :: int) \<le> 3 \<and> newUnsafe 0 3 WhenFullError None = Inr (Inr q3) \<and>
   run [OpPush 10, OpPush 20, OpPush 30, OpPop, OpPeek, OpPush 40] q3 =
     Inr (q3\<lparr>data := [40, 20, 30], isFull := True, start := 1, end_idx := 1\<rparr>) \<and>
   Cap (q3\<lparr>data := [40, 20, 30], isFull := True, start := 1, end_idx := 1\<rparr>) = 3 \<and>
   start (q3\<lparr>data := [40, 20, 30], isFull := True, start := 1, end_idx := 1\<rparr>) < 3 \<and>
   end_idx (q3\<lparr>data := [40, 20, 30], isFull := True, start := 1, end_idx := 1\<rparr>) < 3"
proof -
  have a: "(1 :: int) \<le> 3" by simp
  have b: "newUnsafe 0 3 WhenFullError None = Inr (Inr q3)" by (rule newUnsafe_q3)
  have c: "run [OpPush 10, OpPush 20, OpPush 30, OpPop, OpPeek, OpPush 40] q3 =
     Inr (q3\<lparr>data := [40, 20, 30], isFull := True, start := 1, end_idx := 1\<rparr>)"
    by (simp add: q3_def rq_defs)
  from indices_stay_in_range [OF a b, of "[OpPush 10, OpPush 20, OpPush 30, OpPop, OpPeek, OpPush 40]"]
  obtain r where "run [OpPush 10, OpPush 20, OpPush 30, OpPop, OpPeek, OpPush 40] q3 = Inr r"
    and d: "Cap r = 3" "start r < 3" "end_idx r < 3"
    by blast
  with c have "r = q3\<lparr>data := [40, 20, 30], isFull := True, start := 1, end_idx := 1\<rparr>"
    by simp
  with a b c d show ?thesis
    by simp
qed

section \<open>First in, first out\<close>

lemma diff_mod_window:
  "0 \<le> s \<Longrightarrow> s < n \<Longrightarrow> 0 \<le> e \<Longrightarrow> e < n \<Longrightarrow> (e - s) mod n = (if s \<le> e then e - s else e - s + n)"
  for s e n :: int
proof (cases "s \<le> e")
  case True
  then show "0 \<le> s \<Longrightarrow> s < n \<Longrightarrow> 0 \<le> e \<Longrightarrow> e < n \<Longrightarrow> ?thesis"
    by (simp add: mod_pos_pos_trivial)
next
  case False
  assume b: "0 \<le> s" "s < n" "0 \<le> e" "e < n"
  have "(e - s) mod n = (e - s + n) mod n" by simp
  also have "\<dots> = e - s + n" using b False by (intro mod_pos_pos_trivial) auto
  finally show ?thesis using False by simp
qed

lemma occupied_window:
  assumes "live r"
  shows "occupied r =
     (if isFull r then length (data r)
      else if start r \<le> end_idx r then nat (end_idx r - start r)
      else nat (end_idx r - start r + int (length (data r))))"
  using assms by (auto simp: occupied_def live_def in_range_def diff_mod_window)

lemma nat_add_mod_window:
  "s < n \<Longrightarrow> i \<le> n \<Longrightarrow> (s + i) mod n = (if s + i < n then s + i else s + i - n)" for s i n :: nat
  by (auto simp: mod_if)
  
lemma go_rem_succ: "0 \<le> i \<Longrightarrow> i < n \<Longrightarrow> go_rem (i + 1) n = (if i + 1 = n then 0 else i + 1)"
  by (simp add: go_rem_nonneg)

lemma Push_live:
  assumes "live r" and "\<not> isFull r"
  shows "\<exists>m r'. Push x r = Returns (Inr m) r' \<and> live r' \<and> length (data r') = length (data r) \<and>
           whenFull r' = whenFull r \<and> occupied r' = Suc (occupied r) \<and> contents r' = contents r @ [x]"
proof -
  let ?n = "length (data r)"
  let ?e' = "if end_idx r + 1 = int ?n then 0 else end_idx r + 1"
  let ?r' = "r\<lparr>data := (data r)[nat (end_idx r) := x], end_idx := ?e', isFull := (?e' = start r)\<rparr>"
  from assms have b: "0 \<le> start r" "start r < int ?n" "0 \<le> end_idx r" "end_idx r < int ?n" "\<not> closed r"
    by (auto simp: live_def in_range_def)
  from b have ne: "data r \<noteq> []" by auto
  have P: "Push x r = Returns (Inr (Len ?r')) ?r'"
    using assms b ne by (simp add: Push_def push_store_def Let_def go_rem_succ)
  have L: "live ?r'"
    using b by (auto simp: live_def in_range_def)
  have O: "occupied ?r' = Suc (occupied r)"
    using b assms by (auto simp: occupied_window [OF L] occupied_window [OF assms(1)])
  have idx: "nat (end_idx r) \<noteq> (nat (start r) + i) mod ?n" if "i < occupied r" for i
    using that b assms by (auto simp: occupied_window [OF assms(1)] nat_add_mod_window split: if_splits)
  have last: "(nat (start r) + occupied r) mod ?n = nat (end_idx r)"
    using b assms by (auto simp: occupied_window [OF assms(1)] nat_add_mod_window split: if_splits)
  have C: "contents ?r' = contents r @ [x]"
    using b idx last by (simp add: contents_def O nth_list_update)
  from P L O C show ?thesis by auto
qed

lemma Pop_live:
  assumes "live r" and "occupied r \<noteq> 0"
  shows "\<exists>m r'. Pop r = Returns (Inr (hd (contents r), m)) r' \<and> live r' \<and>
           length (data r') = length (data r) \<and> whenFull r' = whenFull r \<and>
           occupied r' = occupied r - 1 \<and> contents r' = tl (contents r)"
proof -
  let ?n = "length (data r)"
  let ?s' = "if start r + 1 = int ?n then 0 else start r + 1"
  let ?r' = "r\<lparr>start := ?s', isFull := False\<rparr>"
  from assms have b: "0 \<le> start r" "start r < int ?n" "0 \<le> end_idx r" "end_idx r < int ?n" "\<not> closed r"
      "isFull r \<Longrightarrow> start r = end_idx r"
    by (auto simp: live_def in_range_def split: if_splits)
  have ne: "isFull r \<or> start r \<noteq> end_idx r"
    using assms b by (auto simp: occupied_window [OF assms(1)] split: if_splits)
  have h: "hd (contents r) = data r ! nat (start r)"
    using assms b by (simp add: contents_def hd_map hd_upt)
  have P: "Pop r = Returns (Inr (hd (contents r), Len ?r')) ?r'"
    using ne b by (auto simp: Pop_def Let_def go_rem_succ h)
  have L: "live ?r'"
    using b by (auto simp: live_def in_range_def)
  have O: "occupied ?r' = occupied r - 1"
    using b ne assms by (auto simp: occupied_window [OF L] occupied_window [OF assms(1)])
  have idx: "(nat ?s' + i) mod ?n = (nat (start r) + Suc i) mod ?n" for i
  proof (cases "start r + 1 = int ?n")
    case True
    then have eq: "nat (start r) + Suc i = ?n + i" using b by linarith
    have "(nat ?s' + i) mod ?n = i mod ?n" using True by simp
    also have "\<dots> = (?n + i) mod ?n" by simp
    finally show ?thesis by (simp only: eq)
  next
    case False
    then have "nat ?s' = nat (start r) + 1" using b by simp
    then show ?thesis by simp
  qed
  have C: "contents ?r' = tl (contents r)"
  proof -
    obtain k where k: "occupied r = Suc k"
      using assms(2) by (cases "occupied r") auto
    have "[0..<Suc k] = 0 # map Suc [0..<k]"
      using upt_conv_Cons [of 0 "Suc k"] by (simp add: map_Suc_upt del: upt_Suc)
    then have "tl (contents r) = map (\<lambda>i. data r ! ((nat (start r) + Suc i) mod ?n)) [0..<k]"
      by (simp add: contents_def k comp_def del: upt_Suc)
    moreover have "contents ?r' = map (\<lambda>i. data r ! ((nat ?s' + i) mod ?n)) [0..<k]"
      using O k by (simp add: contents_def)
    ultimately show ?thesis
      by (simp only: idx)
  qed
  from P L O C show ?thesis by auto
qed


lemma length_contents: "length (contents r) = occupied r"
  by (simp add: contents_def)

lemma full_occupied: "isFull r \<Longrightarrow> occupied r = length (data r)"
  by (simp add: occupied_def)

lemma push_all_live:
  "live r \<Longrightarrow> occupied r + length xs \<le> length (data r) \<Longrightarrow>
   \<exists>ns r'. push_all xs r = Returns (map Inr ns) r' \<and> length ns = length xs \<and> live r' \<and>
      length (data r') = length (data r) \<and> occupied r' = occupied r + length xs \<and>
      contents r' = contents r @ xs"
proof (induction xs arbitrary: r)
  case Nil
  then show ?case by simp
next
  case (Cons x xs)
  from Cons.prems have "\<not> isFull r"
    using full_occupied [of r] by auto
  from Push_live [OF Cons.prems(1) this, of x] obtain m r1 where
    p: "Push x r = Returns (Inr m) r1" "live r1" "length (data r1) = length (data r)"
       "occupied r1 = Suc (occupied r)" "contents r1 = contents r @ [x]"
    by blast
  from Cons.prems p have "occupied r1 + length xs \<le> length (data r1)"
    by simp
  from Cons.IH [OF p(2) this] obtain ns r' where
    q: "push_all xs r1 = Returns (map Inr ns) r'" "live r'" "length (data r') = length (data r1)"
       "occupied r' = occupied r1 + length xs" "contents r' = contents r1 @ xs"
       "length ns = length xs"
    by blast
  from p q have "push_all (x # xs) r = Returns (map Inr (m # ns)) r'"
    by simp
  with p q show ?case
    by (intro exI [of _ "m # ns"] exI [of _ r']) simp
qed

lemma pop_n_live:
  "live r \<Longrightarrow> m \<le> occupied r \<Longrightarrow>
   \<exists>ms r'. pop_n m r = Returns (map Inr (zip (take m (contents r)) ms)) r' \<and> length ms = m \<and>
      live r' \<and> length (data r') = length (data r) \<and> occupied r' = occupied r - m \<and>
      contents r' = drop m (contents r)"
proof (induction m arbitrary: r)
  case 0
  then show ?case by simp
next
  case (Suc m)
  then have ne: "occupied r \<noteq> 0" by simp
  from Pop_live [OF Suc.prems(1) ne] obtain k r1 where
    p: "Pop r = Returns (Inr (hd (contents r), k)) r1" "live r1"
       "length (data r1) = length (data r)" "occupied r1 = occupied r - 1"
       "contents r1 = tl (contents r)"
    by blast
  from Suc.prems p have "m \<le> occupied r1" by simp
  from Suc.IH [OF p(2) this] obtain ms r' where
    q: "pop_n m r1 = Returns (map Inr (zip (take m (contents r1)) ms)) r'" "length ms = m"
       "live r'" "length (data r') = length (data r1)" "occupied r' = occupied r1 - m"
       "contents r' = drop m (contents r1)"
    by blast
  from ne have c: "contents r = hd (contents r) # tl (contents r)"
    using length_contents [of r] by (cases "contents r") auto
  have t: "take (Suc m) (contents r) = hd (contents r) # take m (tl (contents r))"
    by (subst c) simp
  have d: "drop (Suc m) (contents r) = drop m (tl (contents r))"
    by (subst c) simp
  from p q have "pop_n (Suc m) r = Returns (map Inr (zip (take (Suc m) (contents r)) (k # ms))) r'"
    by (simp add: t)
  with p q d show ?case
    by (intro exI [of _ "k # ms"] exI [of _ r']) simp
qed

text \<open>
  C3. Under the Error policy, pushing \<open>N \<le> C\<close> elements into an empty live buffer of
  capacity \<open>C \<ge> 1\<close>, wherever its indices stand, succeeds \<open>N\<close> times, and \<open>N\<close> pops then
  succeed and return the elements in the order they were pushed. The scenario of
  \<^verbatim>\<open>TestPushPop\<close>: capacity 10, pushes of 0 to 7, five pops that return 0, 1, 2, 3, 4,
  pushes of 100 to 106, and ten pops that return 5, 6, 7, 100, 101, 102, 103, 104, 105,
  106, after which the buffer is empty.
\<close>

theorem FIFO_roundtrip:
  assumes "\<not> closed r" and "in_range r" and "\<not> isFull r" and "start r = end_idx r"
    and "whenFull r = WhenFullError" and "length xs \<le> length (data r)"
  shows "(\<exists>ns r1 ms r2.
            push_all xs r = Returns (map Inr ns) r1 \<and> length ns = length xs \<and>
            pop_n (length xs) r1 = Returns (map Inr (zip xs ms)) r2 \<and> length ms = length xs) \<and>
         newUnsafe 0 10 WhenFullError None = Inr (Inr q10) \<and>
         push_all [0, 1, 2, 3, 4, 5, 6, 7] q10 =
           Returns [Inr 1, Inr 2, Inr 3, Inr 4, Inr 5, Inr 6, Inr 7, Inr 8]
             (q10\<lparr>data := [0, 1, 2, 3, 4, 5, 6, 7, 0, 0], end_idx := 8\<rparr>) \<and>
         pop_n 5 (q10\<lparr>data := [0, 1, 2, 3, 4, 5, 6, 7, 0, 0], end_idx := 8\<rparr>) =
           Returns [Inr (0, 7), Inr (1, 6), Inr (2, 5), Inr (3, 4), Inr (4, 3)]
             (q10\<lparr>data := [0, 1, 2, 3, 4, 5, 6, 7, 0, 0], start := 5, end_idx := 8\<rparr>) \<and>
         push_all [100, 101, 102, 103, 104, 105, 106]
             (q10\<lparr>data := [0, 1, 2, 3, 4, 5, 6, 7, 0, 0], start := 5, end_idx := 8\<rparr>) =
           Returns [Inr 4, Inr 15, Inr 14, Inr 13, Inr 12, Inr 11, Inr 10]
             (q10\<lparr>data := [102, 103, 104, 105, 106, 5, 6, 7, 100, 101], isFull := True,
                   start := 5, end_idx := 5\<rparr>) \<and>
         pop_n 10 (q10\<lparr>data := [102, 103, 104, 105, 106, 5, 6, 7, 100, 101], isFull := True,
                   start := 5, end_idx := 5\<rparr>) =
           Returns [Inr (5, 11), Inr (6, 12), Inr (7, 13), Inr (100, 14), Inr (101, 5),
                    Inr (102, 4), Inr (103, 3), Inr (104, 2), Inr (105, 1), Inr (106, 0)]
             (q10\<lparr>data := [102, 103, 104, 105, 106, 5, 6, 7, 100, 101],
                   start := 5, end_idx := 5\<rparr>) \<and>
         popped [Inr (5, 11), Inr (6, 12), Inr (7, 13), Inr (100, 14), Inr (101, 5),
                 Inr (102, 4), Inr (103, 3), Inr (104, 2), Inr (105, 1), Inr (106, 0)] =
           [5 :: int, 6, 7, 100, 101, 102, 103, 104, 105, 106] \<and>
         Pop (q10\<lparr>data := [102, 103, 104, 105, 106, 5, 6, 7, 100, 101],
                   start := 5, end_idx := 5\<rparr>) =
           Returns (Inl ErrEmptyQueue)
             (q10\<lparr>data := [102, 103, 104, 105, 106, 5, 6, 7, 100, 101],
                   start := 5, end_idx := 5\<rparr>)"
proof -
  from assms have l: "live r" and o: "occupied r = 0"
    by (simp_all add: live_def occupied_def)
  then have c: "contents r = []"
    using length_contents [of r] by simp
  from push_all_live [OF l, of xs] assms o obtain ns r1 where
    p: "push_all xs r = Returns (map Inr ns) r1" "live r1" "occupied r1 = length xs"
       "contents r1 = xs" "length ns = length xs"
    using c by fastforce
  from pop_n_live [OF p(2), of "length xs"] p obtain ms r2 where
    "pop_n (length xs) r1 = Returns (map Inr (zip xs ms)) r2" "length ms = length xs"
    by auto
  with p have general: "\<exists>ns r1 ms r2.
            push_all xs r = Returns (map Inr ns) r1 \<and> length ns = length xs \<and>
            pop_n (length xs) r1 = Returns (map Inr (zip xs ms)) r2 \<and> length ms = length xs"
    by blast
  have s0: "newUnsafe 0 10 WhenFullError None = Inr (Inr q10)"
    by (simp add: newUnsafe_def q10_def eval_nat_numeral)
  have s1: "push_all [0, 1, 2, 3, 4, 5, 6, 7] q10 =
           Returns [Inr 1, Inr 2, Inr 3, Inr 4, Inr 5, Inr 6, Inr 7, Inr 8]
             (q10\<lparr>data := [0, 1, 2, 3, 4, 5, 6, 7, 0, 0], end_idx := 8\<rparr>)"
    by (simp add: q10_def rq_defs)
  have s2: "pop_n 5 (q10\<lparr>data := [0, 1, 2, 3, 4, 5, 6, 7, 0, 0], end_idx := 8\<rparr>) =
           Returns [Inr (0, 7), Inr (1, 6), Inr (2, 5), Inr (3, 4), Inr (4, 3)]
             (q10\<lparr>data := [0, 1, 2, 3, 4, 5, 6, 7, 0, 0], start := 5, end_idx := 8\<rparr>)"
    by (simp add: q10_def rq_defs eval_nat_numeral)
  have s3: "push_all [100, 101, 102, 103, 104, 105, 106]
             (q10\<lparr>data := [0, 1, 2, 3, 4, 5, 6, 7, 0, 0], start := 5, end_idx := 8\<rparr>) =
           Returns [Inr 4, Inr 15, Inr 14, Inr 13, Inr 12, Inr 11, Inr 10]
             (q10\<lparr>data := [102, 103, 104, 105, 106, 5, 6, 7, 100, 101], isFull := True,
                   start := 5, end_idx := 5\<rparr>)"
    by (simp add: q10_def rq_defs eval_nat_numeral)
  have s4: "pop_n 10 (q10\<lparr>data := [102, 103, 104, 105, 106, 5, 6, 7, 100, 101], isFull := True,
                   start := 5, end_idx := 5\<rparr>) =
           Returns [Inr (5, 11), Inr (6, 12), Inr (7, 13), Inr (100, 14), Inr (101, 5),
                    Inr (102, 4), Inr (103, 3), Inr (104, 2), Inr (105, 1), Inr (106, 0)]
             (q10\<lparr>data := [102, 103, 104, 105, 106, 5, 6, 7, 100, 101],
                   start := 5, end_idx := 5\<rparr>)"
    by (simp add: q10_def rq_defs eval_nat_numeral)
  have s5: "popped [Inr (5, 11), Inr (6, 12), Inr (7, 13), Inr (100, 14), Inr (101, 5),
                 Inr (102, 4), Inr (103, 3), Inr (104, 2), Inr (105, 1), Inr (106, 0)] =
           [5 :: int, 6, 7, 100, 101, 102, 103, 104, 105, 106]"
    by simp
  have s6: "Pop (q10\<lparr>data := [102, 103, 104, 105, 106, 5, 6, 7, 100, 101],
                   start := 5, end_idx := 5\<rparr>) =
           Returns (Inl ErrEmptyQueue)
             (q10\<lparr>data := [102, 103, 104, 105, 106, 5, 6, 7, 100, 101],
                   start := 5, end_idx := 5\<rparr>)"
    by (simp add: q10_def Pop_def)
  from general s0 s1 s2 s3 s4 s5 s6 show ?thesis
    by (intro conjI)
qed

theorem FIFO_roundtrip_witness:
  "\<not> closed q3_wrap \<and> in_range q3_wrap \<and> \<not> isFull q3_wrap \<and> start q3_wrap = end_idx q3_wrap \<and>
   whenFull q3_wrap = WhenFullError \<and> length [10 :: int, 20, 30] \<le> length (data q3_wrap) \<and>
   (\<exists>ns r1 ms r2.
      push_all [10, 20, 30] q3_wrap = Returns (map Inr ns) r1 \<and> length ns = 3 \<and>
      pop_n 3 r1 = Returns (map Inr (zip [10, 20, 30] ms)) r2 \<and> length ms = 3)"
proof -
  have h: "\<not> closed q3_wrap" "in_range q3_wrap" "\<not> isFull q3_wrap"
    "start q3_wrap = end_idx q3_wrap" "whenFull q3_wrap = WhenFullError"
    "length [10 :: int, 20, 30] \<le> length (data q3_wrap)"
    by (simp_all add: q3_wrap_def q3_def in_range_def)
  have e: "length [10 :: int, 20, 30] = 3"
    by simp
  from FIFO_roundtrip [OF h, THEN conjunct1]
  have "\<exists>ns r1 ms r2.
      push_all [10, 20, 30] q3_wrap = Returns (map Inr ns) r1 \<and> length ns = 3 \<and>
      pop_n 3 r1 = Returns (map Inr (zip [10, 20, 30] ms)) r2 \<and> length ms = 3"
    by (simp only: e)
  with h show ?thesis
    by (intro conjI)
qed

section \<open>Where the reported length is right\<close>

text \<open>
  On a live buffer \<^verbatim>\<open>Len\<close> is the number of occupied slots as long as \<open>end\<close> is not
  below \<open>start\<close>; below it, \<^verbatim>\<open>Len\<close> is the capacity plus the distance, which is more
  than the capacity.
\<close>

lemma Len_live:
  assumes "live r"
  shows "Len r =
     (if end_idx r < start r then int (length (data r)) + (start r - end_idx r)
      else int (occupied r))"
proof -
  from assms have b: "\<not> closed r" "0 \<le> start r" "0 \<le> end_idx r"
      "isFull r \<Longrightarrow> start r = end_idx r"
    by (auto simp: live_def in_range_def split: if_splits)
  show ?thesis
  proof (cases "isFull r")
    case True
    with b show ?thesis by (simp add: occupied_def Len_def)
  next
    case False
    with b show ?thesis by (simp add: occupied_window [OF assms] Len_def Let_def)
  qed
qed

end
